theory Spec2Isabelle
  imports Main "HOL-Library.Word" "HOL-Library.Sublist"
begin

section \<open>JavaScript strings\<close>

text \<open>
  A JavaScript string is a sequence of UTF-16 code units. \<open>s.length\<close> counts code
  units, \<open>s.substring(0, n)\<close> keeps the first \<open>n\<close> of them, \<open>a + b\<close> appends, and
  \<open>t.startsWith(s)\<close> holds when \<open>s\<close> is a prefix of \<open>t\<close>.
\<close>

type_synonym jsstring = "16 word list"

text \<open>An ASCII literal of the source, read as code units.\<close>

definition ascii :: "string \<Rightarrow> jsstring" where
  "ascii s = map (\<lambda>c. word_of_nat (of_char c)) s"

definition js_length :: "jsstring \<Rightarrow> int" where
  "js_length s = int (length s)"

text \<open>
  \<open>String.prototype.trim\<close> removes the code units of WhiteSpace and LineTerminator
  from both ends: TAB, LF, VT, FF, CR, SP, NBSP, U+1680, U+2000 to U+200A, U+2028, U+2029,
  U+202F, U+205F, U+3000 and U+FEFF.
\<close>

definition is_js_space :: "16 word \<Rightarrow> bool" where
  "is_js_space c \<longleftrightarrow>
     (0x09 \<le> c \<and> c \<le> 0x0D) \<or> c = 0x20 \<or> c = 0xA0 \<or> c = 0x1680 \<or>
     (0x2000 \<le> c \<and> c \<le> 0x200A) \<or> c = 0x2028 \<or> c = 0x2029 \<or> c = 0x202F \<or>
     c = 0x205F \<or> c = 0x3000 \<or> c = 0xFEFF"

definition trim :: "jsstring \<Rightarrow> jsstring" where
  "trim s = rev (dropWhile is_js_space (rev (dropWhile is_js_space s)))"

definition startsWith :: "jsstring \<Rightarrow> jsstring \<Rightarrow> bool" where
  "startsWith t s \<longleftrightarrow> take (length s) t = s"

section \<open>The message-to-prompt conversion\<close>

text \<open>
  A chat message: the role the \<open>switch\<close> of the conversion tells apart (\<open>Other\<close>
  is any role it does not name), and the content, \<open>None\<close> when it is \<open>null\<close> or
  \<open>undefined\<close> and the text otherwise. The console output of the conversion is left
  out.
\<close>

datatype role = System | User | Assistant | Other

record message =
  role :: role
  content :: "jsstring option"

definition PROMPT_LIMIT :: int where
  "PROMPT_LIMIT = 4800"

definition SYSTEM_PROMPT_LIMIT :: int where
  "SYSTEM_PROMPT_LIMIT = 4800"

definition LF2 :: jsstring where
  "LF2 = [0x0A, 0x0A]"

definition SEPARATOR :: jsstring where
  "SEPARATOR = LF2 @ ascii ''-------'' @
     [0x4E0B, 0x9762, 0x662F, 0x6BD4, 0x8F83, 0x65E9, 0x4E4B, 0x524D, 0x7684, 0x5BF9,
      0x8BDD, 0x5185, 0x5BB9] @ ascii ''-----'' @ LF2"

text \<open>Step 1: the content of a message as a string.\<close>

definition content_text :: "message \<Rightarrow> jsstring" where
  "content_text m = (case content m of None \<Rightarrow> [] | Some s \<Rightarrow> s)"

text \<open>
  Step 1, the loop over the messages: the system messages are appended to one string, the
  user and assistant messages are pushed as blocks, any other role is skipped.
\<close>

record partition_state =
  fixed_acc :: jsstring
  blocks_acc :: "jsstring list"

definition partition_step :: "partition_state \<Rightarrow> message \<Rightarrow> partition_state" where
  "partition_step st m =
     (case role m of
        System \<Rightarrow> st\<lparr>fixed_acc := fixed_acc st @ ascii ''System: '' @ content_text m @ LF2\<rparr>
      | User \<Rightarrow> st\<lparr>blocks_acc := blocks_acc st @ [ascii ''Human: '' @ content_text m @ LF2]\<rparr>
      | Assistant \<Rightarrow>
          st\<lparr>blocks_acc := blocks_acc st @ [ascii ''Assistant: '' @ content_text m @ LF2]\<rparr>
      | Other \<Rightarrow> st)"

definition partition_messages :: "message list \<Rightarrow> partition_state" where
  "partition_messages msgs = foldl partition_step \<lparr>fixed_acc = [], blocks_acc = []\<rparr> msgs"

definition conversation_message_blocks :: "message list \<Rightarrow> jsstring list" where
  "conversation_message_blocks msgs = blocks_acc (partition_messages msgs)"

text \<open>Step 2: the combined system text, cut at the limit and trimmed.\<close>

definition fixed_system_prompt_content :: "message list \<Rightarrow> jsstring" where
  "fixed_system_prompt_content msgs =
     (let s = fixed_acc (partition_messages msgs);
          s' = (if js_length s > SYSTEM_PROMPT_LIMIT then take (nat SYSTEM_PROMPT_LIMIT) s else s)
      in trim s')"

text \<open>Step 3: what is left of the system limit for conversation history.\<close>

definition space_occupied_by_fixed_system :: "message list \<Rightarrow> int" where
  "space_occupied_by_fixed_system msgs =
     (if js_length (fixed_system_prompt_content msgs) > 0
      then js_length (fixed_system_prompt_content msgs) + 4 else 0)"

definition remaining_system_limit :: "message list \<Rightarrow> int" where
  "remaining_system_limit msgs =
     max 0 (SYSTEM_PROMPT_LIMIT - space_occupied_by_fixed_system msgs)"

text \<open>
  Step 4: the blocks are visited from the most recent one. The state of the loop is its
  six variables; \<open>unshift\<close> puts a block in front of a list.
\<close>

record fill_state =
  prompt_history_blocks :: "jsstring list"
  system_prompt_history_blocks :: "jsstring list"
  current_prompt_length :: int
  current_system_history_length :: int
  promptFull :: bool
  systemHistoryFull :: bool

text \<open>The body of the loop after the test that leaves it.\<close>

definition fill_step :: "int \<Rightarrow> jsstring \<Rightarrow> fill_state \<Rightarrow> fill_state" where
  "fill_step rem message_block st =
     (let block_length = js_length message_block in
      if \<not> promptFull st \<and> current_prompt_length st + block_length \<le> PROMPT_LIMIT
      then st\<lparr>prompt_history_blocks := message_block # prompt_history_blocks st,
              current_prompt_length := current_prompt_length st + block_length\<rparr>
      else
        let st1 = (if \<not> promptFull st then st\<lparr>promptFull := True\<rparr> else st) in
        if \<not> systemHistoryFull st1
        then (if current_system_history_length st1 + block_length \<le> rem
              then st1\<lparr>system_prompt_history_blocks :=
                          message_block # system_prompt_history_blocks st1,
                        current_system_history_length :=
                          current_system_history_length st1 + block_length\<rparr>
              else st1\<lparr>systemHistoryFull := True\<rparr>)
        else st1)"

text \<open>
  The loop, on the blocks still to visit, most recent first. It is left as soon as both
  slots are full.
\<close>

fun fill_loop :: "int \<Rightarrow> jsstring list \<Rightarrow> fill_state \<Rightarrow> fill_state" where
  "fill_loop rem [] st = st"
| "fill_loop rem (message_block # older) st =
     (if promptFull st \<and> systemHistoryFull st then st
      else fill_loop rem older (fill_step rem message_block st))"

definition fill_init :: "int \<Rightarrow> fill_state" where
  "fill_init rem =
     \<lparr>prompt_history_blocks = [], system_prompt_history_blocks = [],
      current_prompt_length = 0, current_system_history_length = 0,
      promptFull = False, systemHistoryFull = (rem \<le> 0)\<rparr>"

definition fill :: "message list \<Rightarrow> fill_state" where
  "fill msgs =
     fill_loop (remaining_system_limit msgs) (rev (conversation_message_blocks msgs))
       (fill_init (remaining_system_limit msgs))"

text \<open>Step 5: the two history strings and the system prompt.\<close>

definition system_prompt_history_content :: "message list \<Rightarrow> jsstring" where
  "system_prompt_history_content msgs =
     trim (concat (system_prompt_history_blocks (fill msgs)))"

definition final_prompt :: "message list \<Rightarrow> jsstring" where
  "final_prompt msgs = trim (concat (prompt_history_blocks (fill msgs)))"

definition final_system_prompt :: "message list \<Rightarrow> jsstring" where
  "final_system_prompt msgs =
     (let hasFixedSystem = js_length (fixed_system_prompt_content msgs) > 0;
          hasSystemHistory = js_length (system_prompt_history_content msgs) > 0
      in if hasFixedSystem \<and> hasSystemHistory
         then fixed_system_prompt_content msgs @ SEPARATOR @ system_prompt_history_content msgs
         else if hasFixedSystem then fixed_system_prompt_content msgs
         else if hasSystemHistory then system_prompt_history_content msgs
         else [])"

record composed_prompt =
  system_prompt :: jsstring
  prompt :: jsstring

definition convertMessagesToFalPrompt :: "message list \<Rightarrow> composed_prompt" where
  "convertMessagesToFalPrompt msgs =
     \<lparr>system_prompt = final_system_prompt msgs, prompt = final_prompt msgs\<rparr>"

text \<open>
  The text one system message adds to the combined system text, and the block one user or
  assistant message becomes; they name the template strings of step 1 in the statements
  below.
\<close>

definition system_text :: "message \<Rightarrow> jsstring" where
  "system_text m = ascii ''System: '' @ content_text m @ LF2"

definition block_text :: "message \<Rightarrow> jsstring" where
  "block_text m =
     (if role m = User then ascii ''Human: '' @ content_text m @ LF2
      else ascii ''Assistant: '' @ content_text m @ LF2)"

definition is_conversation :: "message \<Rightarrow> bool" where
  "is_conversation m \<longleftrightarrow> role m = User \<or> role m = Assistant"

text \<open>
  The invariant of the loop of step 4. \<open>visited\<close> are the blocks visited so far, in
  their original order, and \<open>older\<close> those of them that were placed in neither slot.
\<close>

definition fill_inv :: "int \<Rightarrow> jsstring list \<Rightarrow> jsstring list \<Rightarrow> fill_state \<Rightarrow> bool" where
  "fill_inv rem visited older st \<longleftrightarrow>
     visited = older @ system_prompt_history_blocks st @ prompt_history_blocks st \<and>
     [] \<notin> set visited \<and>
     current_prompt_length st = js_length (concat (prompt_history_blocks st)) \<and>
     current_system_history_length st = js_length (concat (system_prompt_history_blocks st)) \<and>
     current_prompt_length st \<le> PROMPT_LIMIT \<and>
     current_system_history_length st \<le> rem \<and>
     (promptFull st \<longleftrightarrow> older @ system_prompt_history_blocks st \<noteq> []) \<and>
     (older @ system_prompt_history_blocks st \<noteq> [] \<longrightarrow>
        js_length (last (older @ system_prompt_history_blocks st)) +
        js_length (concat (prompt_history_blocks st)) > PROMPT_LIMIT) \<and>
     (systemHistoryFull st \<longleftrightarrow> rem \<le> 0 \<or> older \<noteq> []) \<and>
     (older \<noteq> [] \<longrightarrow>
        js_length (last older) + js_length (concat (system_prompt_history_blocks st)) > rem)"

text \<open>
  The blocks the composed output holds, oldest first: those of the system slot, then those
  of the prompt.
\<close>

definition kept_blocks :: "message list \<Rightarrow> jsstring list" where
  "kept_blocks msgs =
     system_prompt_history_blocks (fill msgs) @ prompt_history_blocks (fill msgs)"

text \<open>
  The reading of ``the most recent \<open>K\<close> blocks fit within the combined budgets'' by
  total length: the \<open>K\<close> most recent blocks together are no longer than the prompt limit
  plus the remaining system limit.
\<close>

definition most_recent :: "nat \<Rightarrow> jsstring list \<Rightarrow> jsstring list" where
  "most_recent k blocks = drop (length blocks - k) blocks"

definition fits_combined :: "message list \<Rightarrow> nat \<Rightarrow> bool" where
  "fits_combined msgs k \<longleftrightarrow>
     js_length (concat (most_recent k (conversation_message_blocks msgs)))
       \<le> PROMPT_LIMIT + remaining_system_limit msgs"

section \<open>The streaming path of the handler\<close>

text \<open>
  A field of a backend event is any JSON value, \<open>JUndefined\<close> when the field is absent
  (or the event itself is \<open>null\<close>). Of a number only whether it is zero matters here;
  an object or array is kept as its JSON text.
\<close>

datatype jsvalue =
  JUndefined | JNull | JBool bool | JNumber int | JString jsstring | JObject jsstring

fun truthy :: "jsvalue \<Rightarrow> bool" where
  "truthy JUndefined = False"
| "truthy JNull = False"
| "truthy (JBool b) = b"
| "truthy (JNumber n) = (n \<noteq> 0)"
| "truthy (JString s) = (s \<noteq> [])"
| "truthy (JObject _) = True"

record event =
  ev_output :: jsvalue
  ev_partial :: jsvalue
  ev_error :: jsvalue

text \<open>
  What the handler writes to the client. \<open>ErrorChunk e\<close> is the chunk with finish
  reason \<open>error\<close> whose message content is \<open>Fal Stream Error:\<close> followed by the JSON
  text of \<open>e\<close>; \<open>OpenAIChunk d fin\<close> is the chunk with \<open>delta.content = d\<close> and finish
  reason \<open>stop\<close> when \<open>fin\<close> holds, \<open>null\<close> otherwise; \<open>DONE\<close> is the frame
  \<open>data: [DONE]\<close>. The identifier and the time stamp of a chunk are left out.
\<close>

datatype frame = ErrorChunk jsvalue | OpenAIChunk jsstring bool | DONE

definition currentOutput :: "event \<Rightarrow> jsstring" where
  "currentOutput ev = (case ev_output ev of JString s \<Rightarrow> s | _ \<Rightarrow> [])"

definition isPartial :: "event \<Rightarrow> bool" where
  "isPartial ev = (case ev_partial ev of JBool b \<Rightarrow> b | _ \<Rightarrow> True)"

definition errorInfo :: "event \<Rightarrow> jsvalue" where
  "errorInfo ev = (if truthy (ev_error ev) then ev_error ev else JNull)"

text \<open>The delta of one event, from the tracked previous output and the current one.\<close>

definition deltaContent :: "jsstring \<Rightarrow> jsstring \<Rightarrow> jsstring" where
  "deltaContent previousOutput cur =
     (if startsWith cur previousOutput then drop (length previousOutput) cur
      else if length cur > 0 then cur
      else [])"

text \<open>
  One turn of the loop over the events: the frames it writes, the tracked previous output
  after it, and whether the loop is left. The events of a stream are a finite list and
  every write succeeds; the handler's \<open>catch\<close> branch for a failing stream or write is
  outside this model.
\<close>

record turn =
  written :: "frame list"
  tracked :: jsstring
  stopped :: bool

definition process_event :: "jsstring \<Rightarrow> event \<Rightarrow> turn" where
  "process_event previousOutput ev =
     (if truthy (errorInfo ev)
      then \<lparr>written = [ErrorChunk (errorInfo ev)], tracked = previousOutput, stopped = True\<rparr>
      else
        let d = deltaContent previousOutput (currentOutput ev) in
        \<lparr>written = (if d \<noteq> [] \<or> \<not> isPartial ev
                     then [OpenAIChunk d (isPartial ev = False)] else []),
         tracked = currentOutput ev, stopped = False\<rparr>)"

fun stream_loop :: "jsstring \<Rightarrow> event list \<Rightarrow> frame list" where
  "stream_loop previousOutput [] = []"
| "stream_loop previousOutput (ev # evs) =
     (let t = process_event previousOutput ev in
      written t @ (if stopped t then [] else stream_loop (tracked t) evs))"

text \<open>The frames of a whole stream: the loop starts from the empty string, then DONE.\<close>

definition handle_stream :: "event list \<Rightarrow> frame list" where
  "handle_stream evs = stream_loop [] evs @ [DONE]"

text \<open>The delta texts of the content chunks among some frames, in order.\<close>

fun delta_texts :: "frame list \<Rightarrow> jsstring list" where
  "delta_texts [] = []"
| "delta_texts (OpenAIChunk d _ # fs) = d # delta_texts fs"
| "delta_texts (_ # fs) = delta_texts fs"

text \<open>
  Snapshots that extend monotonically: each event carries a string output and no error,
  and each output starts with the one before it.
\<close>

fun monotone_from :: "jsstring \<Rightarrow> event list \<Rightarrow> bool" where
  "monotone_from previousOutput [] = True"
| "monotone_from previousOutput (ev # evs) =
     ((case ev_output ev of JString s \<Rightarrow> startsWith s previousOutput | _ \<Rightarrow> False) \<and>
      \<not> truthy (ev_error ev) \<and> monotone_from (currentOutput ev) evs)"

definition final_snapshot :: "event list \<Rightarrow> jsstring" where
  "final_snapshot evs = (if evs = [] then [] else currentOutput (last evs))"

fun is_error_chunk :: "frame \<Rightarrow> bool" where
  "is_error_chunk (ErrorChunk _) = True"
| "is_error_chunk _ = False"

text \<open>The events of the examples: a string output with a partial flag and no error.\<close>

definition snapshot :: "string \<Rightarrow> bool \<Rightarrow> event" where
  "snapshot s p = \<lparr>ev_output = JString (ascii s), ev_partial = JBool p, ev_error = JUndefined\<rparr>"

text \<open>
  The messages of the examples: a message with an ASCII content, and a user message whose
  content is the letter \<open>x\<close> repeated \<open>n\<close> times.
\<close>

definition msg :: "role \<Rightarrow> string \<Rightarrow> message" where
  "msg r s = \<lparr>role = r, content = Some (ascii s)\<rparr>"

definition long_user :: "nat \<Rightarrow> message" where
  "long_user n = \<lparr>role = User, content = Some (replicate n 0x78)\<rparr>"

section \<open>Properties of the streaming path\<close>

lemma delta_texts_append: "delta_texts (fs @ gs) = delta_texts fs @ delta_texts gs"
  by (induction fs rule: delta_texts.induct) simp_all

lemma startsWith_append_drop: "startsWith t s \<Longrightarrow> s @ drop (length s) t = t"
  unfolding startsWith_def by (metis append_take_drop_id)

lemma startsWith_Nil: "startsWith t []"
  by (simp add: startsWith_def)

lemma deltaContent_Nil: "deltaContent [] cur = cur"
  by (simp add: deltaContent_def startsWith_Nil)

lemma errorInfo_truthy: "truthy (errorInfo ev) \<longleftrightarrow> truthy (ev_error ev)"
  by (simp add: errorInfo_def)

lemma errorInfo_eq: "truthy (ev_error ev) \<Longrightarrow> errorInfo ev = ev_error ev"
  by (simp add: errorInfo_def)

lemma delta_texts_written:
  "\<not> truthy (ev_error ev) \<Longrightarrow>
   concat (delta_texts (written (process_event prev ev))) = deltaContent prev (currentOutput ev)"
  by (simp add: process_event_def errorInfo_truthy Let_def)

lemma process_event_ok:
  "\<not> truthy (ev_error ev) \<Longrightarrow>
   tracked (process_event prev ev) = currentOutput ev \<and> \<not> stopped (process_event prev ev)"
  by (simp add: process_event_def errorInfo_truthy Let_def)

lemma monotone_deltas:
  "monotone_from prev evs \<Longrightarrow>
   prev @ concat (delta_texts (stream_loop prev evs)) =
     (if evs = [] then prev else currentOutput (last evs))"
proof (induction evs arbitrary: prev)
  case Nil
  then show ?case by simp
next
  case (Cons ev evs)
  from Cons.prems have ne: "\<not> truthy (ev_error ev)"
    and sw: "startsWith (currentOutput ev) prev"
    and rest: "monotone_from (currentOutput ev) evs"
    by (auto simp: currentOutput_def split: jsvalue.splits)
  from sw have d: "prev @ deltaContent prev (currentOutput ev) = currentOutput ev"
    by (simp add: deltaContent_def startsWith_append_drop)
  have "prev @ concat (delta_texts (stream_loop prev (ev # evs))) =
        prev @ deltaContent prev (currentOutput ev) @
          concat (delta_texts (stream_loop (currentOutput ev) evs))"
    using ne by (simp add: Let_def delta_texts_append delta_texts_written process_event_ok)
  also have "\<dots> = currentOutput ev @ concat (delta_texts (stream_loop (currentOutput ev) evs))"
    using d by (metis append_assoc)
  also have "\<dots> = (if evs = [] then currentOutput ev else currentOutput (last evs))"
    using Cons.IH [OF rest] .
  finally show ?case by simp
qed

lemma stream_loop_append:
  "\<forall>e\<in>set pre. \<not> truthy (ev_error e) \<Longrightarrow>
   stream_loop prev (pre @ rest) =
     stream_loop prev pre @ stream_loop (if pre = [] then prev else currentOutput (last pre)) rest"
proof (induction pre arbitrary: prev)
  case Nil
  then show ?case by simp
next
  case (Cons e pre)
  then have ne: "\<not> truthy (ev_error e)" and rest: "\<forall>e\<in>set pre. \<not> truthy (ev_error e)"
    by auto
  show ?case
    using Cons.IH [OF rest, of "currentOutput e"] ne
    by (simp add: Let_def process_event_ok)
qed

lemma stream_loop_no_error:
  "\<forall>e\<in>set pre. \<not> truthy (ev_error e) \<Longrightarrow> filter is_error_chunk (stream_loop prev pre) = []"
proof (induction pre arbitrary: prev)
  case Nil
  then show ?case by simp
next
  case (Cons e pre)
  then have ne: "\<not> truthy (ev_error e)" and rest: "\<forall>e\<in>set pre. \<not> truthy (ev_error e)"
    by auto
  have "filter is_error_chunk (written (process_event prev e)) = []"
    using ne by (simp add: process_event_def errorInfo_truthy Let_def)
  then show ?case
    using Cons.IH [OF rest, of "currentOutput e"] ne
    by (simp add: Let_def process_event_ok)
qed

text \<open>
  Claim C3. When every event of a stream carries a string output that starts with the
  output of the event before it (and no error), the delta texts of the chunks written for
  the stream, put together, are the output of the last event. The events with outputs
  \<open>Hi\<close>, \<open>Hi there\<close>, \<open>Hi there!\<close> (partial, partial, final) give the deltas
  \<open>Hi\<close>, \<open> there\<close>, \<open>!\<close>, the last one with finish reason \<open>stop\<close>, then the
  done frame.
\<close>

theorem delta_suffix_law:
  "(monotone_from [] evs \<longrightarrow> concat (delta_texts (handle_stream evs)) = final_snapshot evs) \<and>
   handle_stream [snapshot ''Hi'' True, snapshot ''Hi there'' True, snapshot ''Hi there!'' False] =
     [OpenAIChunk (ascii ''Hi'') False, OpenAIChunk (ascii '' there'') False,
      OpenAIChunk (ascii ''!'') True, DONE]"
proof
  show "monotone_from [] evs \<longrightarrow> concat (delta_texts (handle_stream evs)) = final_snapshot evs"
    using monotone_deltas [of "[]" evs]
    by (simp add: handle_stream_def delta_texts_append final_snapshot_def)
  show "handle_stream [snapshot ''Hi'' True, snapshot ''Hi there'' True, snapshot ''Hi there!'' False] =
     [OpenAIChunk (ascii ''Hi'') False, OpenAIChunk (ascii '' there'') False,
      OpenAIChunk (ascii ''!'') True, DONE]"
    by code_simp
qed

theorem delta_suffix_law_witness:
  "monotone_from [] [snapshot ''Hi'' True, snapshot ''Hi there'' True, snapshot ''Hi there!'' False] \<and>
   concat (delta_texts (handle_stream
     [snapshot ''Hi'' True, snapshot ''Hi there'' True, snapshot ''Hi there!'' False])) =
     ascii ''Hi there!'' \<and>
   final_snapshot [snapshot ''Hi'' True, snapshot ''Hi there'' True, snapshot ''Hi there!'' False] =
     ascii ''Hi there!''"
proof -
  let ?evs = "[snapshot ''Hi'' True, snapshot ''Hi there'' True, snapshot ''Hi there!'' False]"
  have m: "monotone_from [] ?evs"
    by code_simp
  have f: "final_snapshot ?evs = ascii ''Hi there!''"
    by code_simp
  have "monotone_from [] ?evs \<longrightarrow> concat (delta_texts (handle_stream ?evs)) = final_snapshot ?evs"
    using delta_suffix_law [of ?evs] by (rule conjunct1)
  then have "concat (delta_texts (handle_stream ?evs)) = final_snapshot ?evs"
    using m by (rule mp)
  then have c: "concat (delta_texts (handle_stream ?evs)) = ascii ''Hi there!''"
    using f by (rule trans)
  from m c f show ?thesis by (intro conjI)
qed

text \<open>
  Claim C5. An event without an error whose output is a non-empty string that does not
  start with the tracked previous output is written as one chunk whose delta is that
  output in full; the tracked previous output becomes that output, so the rest of the
  stream is handled from it.
\<close>

theorem non_monotonic_recovery:
  assumes "\<not> truthy (ev_error ev)"
    and "currentOutput ev \<noteq> []"
    and "\<not> startsWith (currentOutput ev) prev"
  shows "written (process_event prev ev) = [OpenAIChunk (currentOutput ev) (isPartial ev = False)] \<and>
    tracked (process_event prev ev) = currentOutput ev \<and>
    stream_loop prev (ev # evs) =
      OpenAIChunk (currentOutput ev) (isPartial ev = False) # stream_loop (currentOutput ev) evs"
proof -
  from assms have d: "deltaContent prev (currentOutput ev) = currentOutput ev"
    by (simp add: deltaContent_def)
  with assms have w: "written (process_event prev ev) =
      [OpenAIChunk (currentOutput ev) (isPartial ev = False)]"
    by (simp add: process_event_def errorInfo_truthy Let_def)
  with assms(1) show ?thesis
    by (simp add: Let_def process_event_ok)
qed

theorem non_monotonic_recovery_witness:
  "\<not> truthy (ev_error (snapshot ''Bye'' True)) \<and>
   currentOutput (snapshot ''Bye'' True) \<noteq> [] \<and>
   \<not> startsWith (currentOutput (snapshot ''Bye'' True)) (ascii ''Hi'') \<and>
   written (process_event (ascii ''Hi'') (snapshot ''Bye'' True)) =
     [OpenAIChunk (ascii ''Bye'') False] \<and>
   tracked (process_event (ascii ''Hi'') (snapshot ''Bye'' True)) = ascii ''Bye'' \<and>
   stream_loop (ascii ''Hi'') [snapshot ''Bye'' True, snapshot ''Bye now'' False] =
     [OpenAIChunk (ascii ''Bye'') False, OpenAIChunk (ascii '' now'') True]"
proof -
  let ?ev = "snapshot ''Bye'' True"
  have h1: "\<not> truthy (ev_error ?ev)" by code_simp
  have h2: "currentOutput ?ev \<noteq> []" by code_simp
  have h3: "\<not> startsWith (currentOutput ?ev) (ascii ''Hi'')" by code_simp
  have c: "currentOutput ?ev = ascii ''Bye''" by code_simp
  have p: "(isPartial ?ev = False) = False" by code_simp
  have r: "stream_loop (ascii ''Bye'') [snapshot ''Bye now'' False] = [OpenAIChunk (ascii '' now'') True]"
    by code_simp
  from non_monotonic_recovery [OF h1 h2 h3, of "[snapshot ''Bye now'' False]"] h1 h2 h3
  show ?thesis unfolding c p r by (intro conjI) simp_all
qed

text \<open>
  Claim C10. For an event without an error whose output is absent, not a string or the
  empty string, while the tracked previous output is not empty: the delta is empty, so a
  chunk is written only when the event is final; the tracked previous output becomes the
  empty string, so the delta of the next event is its whole output.
\<close>

theorem empty_output_resets:
  assumes "\<not> truthy (ev_error ev)"
    and "ev_output ev = JString [] \<or> (\<forall>s. ev_output ev \<noteq> JString s)"
    and "prev \<noteq> []"
  shows "deltaContent prev (currentOutput ev) = [] \<and>
    written (process_event prev ev) = (if isPartial ev then [] else [OpenAIChunk [] True]) \<and>
    tracked (process_event prev ev) = [] \<and>
    deltaContent (tracked (process_event prev ev)) next_output = next_output \<and>
    stream_loop prev (ev # evs) =
      (if isPartial ev then [] else [OpenAIChunk [] True]) @ stream_loop [] evs"
proof -
  from assms(2) have c: "currentOutput ev = []"
    by (auto simp: currentOutput_def split: jsvalue.splits)
  from assms(3) have d: "deltaContent prev [] = []"
    by (auto simp: deltaContent_def startsWith_def)
  from assms(1) c d show ?thesis
    by (simp add: process_event_def errorInfo_truthy Let_def deltaContent_Nil)
qed

theorem empty_output_resets_witness:
  "\<not> truthy (ev_error \<lparr>ev_output = JUndefined, ev_partial = JBool True, ev_error = JUndefined\<rparr>) \<and>
   ascii ''Hi'' \<noteq> [] \<and>
   written (process_event (ascii ''Hi'')
     \<lparr>ev_output = JUndefined, ev_partial = JBool True, ev_error = JUndefined\<rparr>) = [] \<and>
   stream_loop (ascii ''Hi'')
     [\<lparr>ev_output = JUndefined, ev_partial = JBool True, ev_error = JUndefined\<rparr>,
      snapshot ''Hi there'' True] = [OpenAIChunk (ascii ''Hi there'') False]"
proof -
  let ?ev = "\<lparr>ev_output = JUndefined, ev_partial = JBool True, ev_error = JUndefined\<rparr>"
  have h1: "\<not> truthy (ev_error ?ev)" by simp
  have h2: "ev_output ?ev = JString [] \<or> (\<forall>s. ev_output ?ev \<noteq> JString s)" by simp
  have h3: "ascii ''Hi'' \<noteq> []" by (simp add: ascii_def)
  have p: "isPartial ?ev" by (simp add: isPartial_def)
  have r: "stream_loop [] [snapshot ''Hi there'' True] = [OpenAIChunk (ascii ''Hi there'') False]"
    by code_simp
  from empty_output_resets [OF h1 h2 h3, of "[]" "[snapshot ''Hi there'' True]"] h1 h3 p r
  show ?thesis by simp
qed

lemma isPartial_False_iff: "\<not> isPartial ev \<longleftrightarrow> ev_partial ev = JBool False"
  by (auto simp: isPartial_def split: jsvalue.splits)

text \<open>
  Claim C6, as amended. One event writes at most one chunk. An event without an error
  writes a chunk exactly when its delta is not empty or its partial flag is the boolean
  \<open>false\<close>; so an event flagged \<open>partial = false\<close> writes exactly one chunk, with
  finish reason \<open>stop\<close>, also when its delta is empty.
\<close>

theorem chunk_per_event:
  "length (written (process_event prev ev)) \<le> 1 \<and>
   (\<not> truthy (ev_error ev) \<longrightarrow>
      (written (process_event prev ev) \<noteq> [] \<longleftrightarrow>
         deltaContent prev (currentOutput ev) \<noteq> [] \<or> ev_partial ev = JBool False)) \<and>
   (\<not> truthy (ev_error ev) \<and> ev_partial ev = JBool False \<longrightarrow>
      written (process_event prev ev) =
        [OpenAIChunk (deltaContent prev (currentOutput ev)) True])"
proof (intro conjI impI)
  show "length (written (process_event prev ev)) \<le> 1"
    by (simp add: process_event_def Let_def)
next
  assume "\<not> truthy (ev_error ev)"
  then show "written (process_event prev ev) \<noteq> [] \<longleftrightarrow>
      deltaContent prev (currentOutput ev) \<noteq> [] \<or> ev_partial ev = JBool False"
    by (simp add: process_event_def errorInfo_truthy Let_def isPartial_False_iff)
next
  assume "\<not> truthy (ev_error ev) \<and> ev_partial ev = JBool False"
  then show "written (process_event prev ev) =
      [OpenAIChunk (deltaContent prev (currentOutput ev)) True]"
    by (simp add: process_event_def errorInfo_truthy Let_def isPartial_def)
qed

theorem chunk_per_event_witness:
  "\<not> truthy (ev_error (snapshot ''Hi'' False)) \<and>
   ev_partial (snapshot ''Hi'' False) = JBool False \<and>
   deltaContent (ascii ''Hi'') (currentOutput (snapshot ''Hi'' False)) = [] \<and>
   written (process_event (ascii ''Hi'') (snapshot ''Hi'' False)) = [OpenAIChunk [] True]"
proof -
  let ?ev = "snapshot ''Hi'' False"
  have h1: "\<not> truthy (ev_error ?ev)" by code_simp
  have h2: "ev_partial ?ev = JBool False" by code_simp
  have d: "deltaContent (ascii ''Hi'') (currentOutput ?ev) = []" by code_simp
  from chunk_per_event [of "ascii ''Hi''" ?ev] h1 h2
  have "written (process_event (ascii ''Hi'') ?ev) =
      [OpenAIChunk (deltaContent (ascii ''Hi'') (currentOutput ?ev)) True]"
    by blast
  with h1 h2 d show ?thesis by simp
qed

text \<open>
  The last event of a stream need not be flagged: in the stream of two partial events with
  the same output \<open>Hi\<close>, the last event writes no chunk.
\<close>

theorem last_event_without_chunk:
  "handle_stream [snapshot ''Hi'' True, snapshot ''Hi'' True] =
     [OpenAIChunk (ascii ''Hi'') False, DONE] \<and>
   tracked (process_event [] (snapshot ''Hi'' True)) = ascii ''Hi'' \<and>
   written (process_event (ascii ''Hi'') (snapshot ''Hi'' True)) = [] \<and>
   length (written (process_event (ascii ''Hi'') (snapshot ''Hi'' True))) \<noteq> 1"
  by code_simp

text \<open>
  Claim C7. An event with an error payload (a truthy \<open>error\<close> field) writes exactly one
  chunk, the error chunk with that payload, and leaves the loop: when no earlier event of
  the stream had an error, the frames of the stream are those of the earlier events, the
  error chunk and then the done frame, whatever events follow, and the error chunk is the
  only one among them.
\<close>

theorem error_event_terminal:
  assumes "truthy (ev_error ev)"
    and "\<forall>e\<in>set pre. \<not> truthy (ev_error e)"
  shows "written (process_event prev ev) = [ErrorChunk (ev_error ev)] \<and>
    stopped (process_event prev ev) \<and>
    handle_stream (pre @ ev # evs) = stream_loop [] pre @ [ErrorChunk (ev_error ev), DONE] \<and>
    length (filter is_error_chunk (handle_stream (pre @ ev # evs))) = 1"
proof -
  from assms(1) have w: "written (process_event prev ev) = [ErrorChunk (ev_error ev)]"
    and s: "stopped (process_event prev ev)" for prev
    by (simp_all add: process_event_def errorInfo_truthy errorInfo_eq)
  then have l: "stream_loop p (ev # evs) = [ErrorChunk (ev_error ev)]" for p
    by (simp add: Let_def)
  have h: "handle_stream (pre @ ev # evs) = stream_loop [] pre @ [ErrorChunk (ev_error ev), DONE]"
    unfolding handle_stream_def stream_loop_append [OF assms(2)] l by simp
  have "filter is_error_chunk (handle_stream (pre @ ev # evs)) = [ErrorChunk (ev_error ev)]"
    unfolding h using stream_loop_no_error [OF assms(2), of "[]"] by simp
  with w s h show ?thesis by simp
qed

theorem error_event_terminal_witness:
  "truthy (JString (ascii ''boom'')) \<and>
   \<not> truthy (ev_error (snapshot ''Hi'' True)) \<and>
   handle_stream
     [snapshot ''Hi'' True,
      \<lparr>ev_output = JString (ascii ''Hi there''), ev_partial = JBool True,
       ev_error = JString (ascii ''boom'')\<rparr>,
      snapshot ''Hi there!'' False] =
     [OpenAIChunk (ascii ''Hi'') False, ErrorChunk (JString (ascii ''boom'')), DONE]"
proof -
  let ?ev = "\<lparr>ev_output = JString (ascii ''Hi there''), ev_partial = JBool True,
       ev_error = JString (ascii ''boom'')\<rparr>"
  have h1: "truthy (ev_error ?ev)" by (simp add: ascii_def)
  have h0: "\<not> truthy (ev_error (snapshot ''Hi'' True))" by code_simp
  then have h2: "\<forall>e\<in>set [snapshot ''Hi'' True]. \<not> truthy (ev_error e)" by simp
  have p: "stream_loop [] [snapshot ''Hi'' True] = [OpenAIChunk (ascii ''Hi'') False]"
    by code_simp
  from error_event_terminal [OF h1 h2, of "[]" "[snapshot ''Hi there!'' False]"]
  have "handle_stream ([snapshot ''Hi'' True] @ ?ev # [snapshot ''Hi there!'' False]) =
      stream_loop [] [snapshot ''Hi'' True] @ [ErrorChunk (ev_error ?ev), DONE]"
    by blast
  with p h1 h0 show ?thesis by simp
qed

section \<open>Properties of the message-to-prompt conversion\<close>

lemma js_length_append: "js_length (a @ b) = js_length a + js_length b"
  by (simp add: js_length_def)

lemma js_length_nonneg: "0 \<le> js_length s"
  by (simp add: js_length_def)

lemma js_length_pos: "s \<noteq> [] \<Longrightarrow> 0 < js_length s"
  by (simp add: js_length_def)

lemma js_length_Nil: "js_length [] = 0"
  by (simp add: js_length_def)

lemma js_length_concat_pos:
  "xs \<noteq> [] \<Longrightarrow> [] \<notin> set xs \<Longrightarrow> 0 < js_length (concat xs)"
proof -
  assume "xs \<noteq> []" "[] \<notin> set xs"
  then have "concat xs \<noteq> []" by (cases xs) auto
  then show ?thesis by (rule js_length_pos)
qed

lemma fill_inv_older:
  assumes "fill_inv rem visited older st" "promptFull st" "systemHistoryFull st"
  shows "older \<noteq> []"
proof
  assume o: "older = []"
  with assms have r: "rem \<le> 0" and s: "system_prompt_history_blocks st \<noteq> []"
    by (auto simp: fill_inv_def)
  from assms have "[] \<notin> set (system_prompt_history_blocks st)"
    by (auto simp: fill_inv_def)
  with s have "0 < js_length (concat (system_prompt_history_blocks st))"
    by (rule js_length_concat_pos)
  moreover from assms have "js_length (concat (system_prompt_history_blocks st)) \<le> rem"
    by (simp add: fill_inv_def)
  ultimately show False using r by simp
qed

lemma fill_inv_break:
  assumes "fill_inv rem visited older st" "promptFull st" "systemHistoryFull st"
    and "[] \<notin> set xs"
  shows "fill_inv rem (xs @ visited) (xs @ older) st"
proof -
  have "older \<noteq> []" using assms(1-3) by (rule fill_inv_older)
  with assms(1,4) show ?thesis
    unfolding fill_inv_def by auto
qed

lemma fill_inv_step:
  assumes inv: "fill_inv rem visited older st"
    and cont: "\<not> (promptFull st \<and> systemHistoryFull st)"
    and b: "b \<noteq> []"
  shows "\<exists>older'. fill_inv rem (b # visited) older' (fill_step rem b st)"
proof (cases "promptFull st")
  case False
  with inv have e: "older = []" "system_prompt_history_blocks st = []"
    by (auto simp: fill_inv_def)
  show ?thesis
  proof (cases "current_prompt_length st + js_length b \<le> PROMPT_LIMIT")
    case True
    with False inv e b have "fill_inv rem (b # visited) [] (fill_step rem b st)"
      by (auto simp: fill_inv_def fill_step_def Let_def js_length_append)
    then show ?thesis ..
  next
    case over: False
    show ?thesis
    proof (cases "systemHistoryFull st")
      case True
      with False over inv e b have "fill_inv rem (b # visited) [b] (fill_step rem b st)"
        using js_length_pos [of b]
        by (auto simp: fill_inv_def fill_step_def Let_def js_length_append js_length_Nil)
      then show ?thesis ..
    next
      case nf: False
      show ?thesis
      proof (cases "js_length b \<le> rem")
        case True
        with False over inv e b nf have "fill_inv rem (b # visited) [] (fill_step rem b st)"
          by (auto simp: fill_inv_def fill_step_def Let_def js_length_append js_length_Nil)
        then show ?thesis ..
      next
        case False
        with \<open>\<not> promptFull st\<close> over inv e b nf
        have "fill_inv rem (b # visited) [b] (fill_step rem b st)"
          by (auto simp: fill_inv_def fill_step_def Let_def js_length_append js_length_Nil)
        then show ?thesis ..
      qed
    qed
  qed
next
  case True
  with cont have nf: "\<not> systemHistoryFull st" by simp
  with inv have e: "older = []" "0 < rem"
    by (auto simp: fill_inv_def)
  with True inv have s: "system_prompt_history_blocks st \<noteq> []"
    by (auto simp: fill_inv_def)
  show ?thesis
  proof (cases "current_system_history_length st + js_length b \<le> rem")
    case fits: True
    with True nf inv e s b have "fill_inv rem (b # visited) [] (fill_step rem b st)"
      by (auto simp: fill_inv_def fill_step_def Let_def js_length_append js_length_Nil)
    then show ?thesis ..
  next
    case False
    with True nf inv e s b have "fill_inv rem (b # visited) [b] (fill_step rem b st)"
      by (auto simp: fill_inv_def fill_step_def Let_def js_length_append js_length_Nil)
    then show ?thesis ..
  qed
qed

lemma fill_loop_inv:
  assumes "fill_inv rem visited older st" "[] \<notin> set bs"
  shows "\<exists>older'. fill_inv rem (rev bs @ visited) older' (fill_loop rem bs st)"
  using assms
proof (induction bs arbitrary: visited older st)
  case Nil
  then show ?case by auto
next
  case (Cons b bs)
  show ?case
  proof (cases "promptFull st \<and> systemHistoryFull st")
    case True
    with Cons.prems have "fill_inv rem (rev (b # bs) @ visited) (rev (b # bs) @ older) st"
      by (intro fill_inv_break) auto
    with True show ?thesis by auto
  next
    case False
    from Cons.prems have "b \<noteq> []" by auto
    with Cons.prems(1) False obtain o1 where "fill_inv rem (b # visited) o1 (fill_step rem b st)"
      using fill_inv_step by blast
    moreover from Cons.prems have "[] \<notin> set bs" by auto
    ultimately obtain o2 where
      "fill_inv rem (rev bs @ b # visited) o2 (fill_loop rem bs (fill_step rem b st))"
      using Cons.IH by blast
    with False show ?thesis by auto
  qed
qed

lemma PROMPT_LIMIT_nonneg: "0 \<le> PROMPT_LIMIT"
  by (simp add: PROMPT_LIMIT_def)

lemma SYSTEM_PROMPT_LIMIT_nonneg: "0 \<le> SYSTEM_PROMPT_LIMIT"
  by (simp add: SYSTEM_PROMPT_LIMIT_def)

lemma remaining_system_limit_nonneg: "0 \<le> remaining_system_limit msgs"
  by (simp add: remaining_system_limit_def)

lemma length_trim_le: "length (trim s) \<le> length s"
proof -
  have "length (trim s) \<le> length (dropWhile is_js_space s)"
    unfolding trim_def using length_dropWhile_le [of is_js_space "rev (dropWhile is_js_space s)"]
    by simp
  also have "\<dots> \<le> length s" by (rule length_dropWhile_le)
  finally show ?thesis .
qed

lemma js_length_trim_le: "js_length (trim s) \<le> js_length s"
  using length_trim_le [of s] by (simp add: js_length_def)

lemma trim_Nil: "trim [] = []"
  by (simp add: trim_def)

lemma trim_nonempty: "\<not> is_js_space c \<Longrightarrow> trim (c # s) \<noteq> []"
  by (simp add: trim_def)

lemma fixed_acc_foldl:
  "fixed_acc (foldl partition_step st msgs) =
     fixed_acc st @ concat (map system_text (filter (\<lambda>m. role m = System) msgs))"
  by (induction msgs arbitrary: st)
    (auto simp: partition_step_def system_text_def split: role.splits)

lemma blocks_acc_foldl:
  "blocks_acc (foldl partition_step st msgs) =
     blocks_acc st @ map block_text (filter is_conversation msgs)"
  by (induction msgs arbitrary: st)
    (auto simp: partition_step_def block_text_def is_conversation_def split: role.splits)

lemma conversation_message_blocks_eq:
  "conversation_message_blocks msgs = map block_text (filter is_conversation msgs)"
  by (simp add: conversation_message_blocks_def partition_messages_def blocks_acc_foldl)

lemma fixed_acc_eq:
  "fixed_acc (partition_messages msgs) =
     concat (map system_text (filter (\<lambda>m. role m = System) msgs))"
  by (simp add: partition_messages_def fixed_acc_foldl)

lemma block_text_nonempty: "block_text m \<noteq> []"
  by (simp add: block_text_def ascii_def)

lemma blocks_nonempty: "[] \<notin> set (conversation_message_blocks msgs)"
proof
  assume "[] \<in> set (conversation_message_blocks msgs)"
  then obtain m where "[] = block_text m"
    by (auto simp: conversation_message_blocks_eq)
  then have "block_text m = []" by (rule sym)
  with block_text_nonempty show False by blast
qed

lemma fill_init_inv: "0 \<le> rem \<Longrightarrow> fill_inv rem [] [] (fill_init rem)"
  by (simp add: fill_inv_def fill_init_def js_length_Nil PROMPT_LIMIT_nonneg)

lemma fill_inv_fill:
  "\<exists>older. fill_inv (remaining_system_limit msgs) (conversation_message_blocks msgs) older (fill msgs)"
proof -
  have "\<exists>older. fill_inv (remaining_system_limit msgs)
      (rev (rev (conversation_message_blocks msgs)) @ []) older (fill msgs)"
    unfolding fill_def
    by (rule fill_loop_inv [OF fill_init_inv]) (simp_all add: remaining_system_limit_nonneg blocks_nonempty)
  then show ?thesis by simp
qed

lemma fixed_length_le: "js_length (fixed_system_prompt_content msgs) \<le> SYSTEM_PROMPT_LIMIT"
proof -
  let ?s = "fixed_acc (partition_messages msgs)"
  let ?s' = "if js_length ?s > SYSTEM_PROMPT_LIMIT then take (nat SYSTEM_PROMPT_LIMIT) ?s else ?s"
  have "js_length ?s' \<le> SYSTEM_PROMPT_LIMIT"
    using SYSTEM_PROMPT_LIMIT_nonneg by (auto simp: js_length_def)
  moreover have "js_length (trim ?s') \<le> js_length ?s'" by (rule js_length_trim_le)
  ultimately show ?thesis
    by (simp add: fixed_system_prompt_content_def Let_def)
qed

lemma prompt_length_le: "js_length (final_prompt msgs) \<le> PROMPT_LIMIT"
proof -
  obtain older where
    "fill_inv (remaining_system_limit msgs) (conversation_message_blocks msgs) older (fill msgs)"
    using fill_inv_fill by blast
  then have "js_length (concat (prompt_history_blocks (fill msgs))) \<le> PROMPT_LIMIT"
    by (simp add: fill_inv_def)
  with js_length_trim_le [of "concat (prompt_history_blocks (fill msgs))"]
  show ?thesis by (simp add: final_prompt_def)
qed

lemma history_length_le:
  "js_length (system_prompt_history_content msgs) \<le> remaining_system_limit msgs"
proof -
  obtain older where
    "fill_inv (remaining_system_limit msgs) (conversation_message_blocks msgs) older (fill msgs)"
    using fill_inv_fill by blast
  then have "js_length (concat (system_prompt_history_blocks (fill msgs)))
      \<le> remaining_system_limit msgs"
    by (simp add: fill_inv_def)
  with js_length_trim_le [of "concat (system_prompt_history_blocks (fill msgs))"]
  show ?thesis by (simp add: system_prompt_history_content_def)
qed

lemma remaining_system_limit_eq:
  "remaining_system_limit msgs =
     (if fixed_system_prompt_content msgs = [] then SYSTEM_PROMPT_LIMIT
      else max 0 (SYSTEM_PROMPT_LIMIT - (js_length (fixed_system_prompt_content msgs) + 4)))"
  using SYSTEM_PROMPT_LIMIT_nonneg
  by (auto simp: remaining_system_limit_def space_occupied_by_fixed_system_def js_length_def)

lemma system_prompt_length_le:
  "js_length (final_system_prompt msgs) \<le> SYSTEM_PROMPT_LIMIT + js_length SEPARATOR"
proof -
  let ?f = "fixed_system_prompt_content msgs" and ?h = "system_prompt_history_content msgs"
  have f: "js_length ?f \<le> SYSTEM_PROMPT_LIMIT" by (rule fixed_length_le)
  have h: "js_length ?h \<le> remaining_system_limit msgs" by (rule history_length_le)
  have s: "0 \<le> js_length SEPARATOR" by (rule js_length_nonneg)
  show ?thesis
  proof (cases "0 < js_length ?f \<and> 0 < js_length ?h")
    case True
    with h have "js_length ?f + 4 + js_length ?h \<le> SYSTEM_PROMPT_LIMIT"
      unfolding remaining_system_limit_def space_occupied_by_fixed_system_def by auto
    with True show ?thesis
      by (simp add: final_system_prompt_def Let_def js_length_append)
  next
    case False
    have "remaining_system_limit msgs \<le> SYSTEM_PROMPT_LIMIT"
      using SYSTEM_PROMPT_LIMIT_nonneg js_length_nonneg [of ?f]
      by (simp add: remaining_system_limit_def space_occupied_by_fixed_system_def)
    with h have "js_length ?h \<le> SYSTEM_PROMPT_LIMIT" by simp
    with False f s SYSTEM_PROMPT_LIMIT_nonneg show ?thesis
      by (auto simp: final_system_prompt_def Let_def js_length_Nil)
  qed
qed

text \<open>
  Claim C1. For every list of messages the prompt is at most \<open>PROMPT_LIMIT\<close> code units
  long; the history placed in the system slot is no longer than the remaining system
  limit, which is \<open>SYSTEM_PROMPT_LIMIT\<close> when the fixed system text is empty and
  otherwise \<open>SYSTEM_PROMPT_LIMIT\<close> minus the length of the trimmed fixed text plus 4,
  but at least 0; and the system prompt is at most \<open>SYSTEM_PROMPT_LIMIT\<close> plus the
  length of the separator long.
\<close>

theorem budget_invariant:
  "js_length (prompt (convertMessagesToFalPrompt msgs)) \<le> PROMPT_LIMIT \<and>
   js_length (system_prompt_history_content msgs) \<le> remaining_system_limit msgs \<and>
   remaining_system_limit msgs =
     (if fixed_system_prompt_content msgs = [] then SYSTEM_PROMPT_LIMIT
      else max 0 (SYSTEM_PROMPT_LIMIT - (js_length (fixed_system_prompt_content msgs) + 4))) \<and>
   js_length (system_prompt (convertMessagesToFalPrompt msgs))
     \<le> SYSTEM_PROMPT_LIMIT + js_length SEPARATOR"
  using prompt_length_le [of msgs] history_length_le [of msgs]
    remaining_system_limit_eq [of msgs] system_prompt_length_le [of msgs]
  by (simp add: convertMessagesToFalPrompt_def)


theorem budget_invariant_witness:
  "js_length (prompt (convertMessagesToFalPrompt
     [msg System ''A'', msg User ''B'', msg Assistant ''C'', msg User ''D''])) \<le> PROMPT_LIMIT \<and>
   js_length (system_prompt (convertMessagesToFalPrompt
     [msg System ''A'', msg User ''B'', msg Assistant ''C'', msg User ''D'']))
     \<le> SYSTEM_PROMPT_LIMIT + js_length SEPARATOR"
  using budget_invariant [of "[msg System ''A'', msg User ''B'', msg Assistant ''C'', msg User ''D'']"]
  by simp

lemma fill_step_prompt:
  "prompt_history_blocks (fill_step rem b st) =
     (if \<not> promptFull st \<and> current_prompt_length st + js_length b \<le> PROMPT_LIMIT
      then b # prompt_history_blocks st else prompt_history_blocks st)"
  "current_prompt_length (fill_step rem b st) =
     (if \<not> promptFull st \<and> current_prompt_length st + js_length b \<le> PROMPT_LIMIT
      then current_prompt_length st + js_length b else current_prompt_length st)"
  "promptFull (fill_step rem b st) \<longleftrightarrow>
     promptFull st \<or> \<not> current_prompt_length st + js_length b \<le> PROMPT_LIMIT"
  by (simp_all add: fill_step_def Let_def)

lemma prompt_stays:
  "promptFull st \<Longrightarrow>
   prompt_history_blocks (fill_loop rem bs st) = prompt_history_blocks st \<and>
   promptFull (fill_loop rem bs st)"
proof (induction bs arbitrary: st)
  case Nil
  then show ?case by simp
next
  case (Cons b bs)
  from Cons.prems have "promptFull (fill_step rem b st)"
    and "prompt_history_blocks (fill_step rem b st) = prompt_history_blocks st"
    by (simp_all add: fill_step_prompt)
  with Cons.IH [of "fill_step rem b st"] Cons.prems show ?case by simp
qed

lemma prompt_indep:
  assumes "prompt_history_blocks st = prompt_history_blocks st'"
    and "current_prompt_length st = current_prompt_length st'"
    and "promptFull st = promptFull st'"
  shows "prompt_history_blocks (fill_loop rem bs st) =
    prompt_history_blocks (fill_loop rem' bs st')"
  using assms
proof (induction bs arbitrary: st st')
  case Nil
  then show ?case by simp
next
  case (Cons b bs)
  show ?case
  proof (cases "promptFull st")
    case True
    with Cons.prems have "promptFull st'" by simp
    with True Cons.prems(1) show ?thesis
      using prompt_stays [of st rem "b # bs"] prompt_stays [of st' rem' "b # bs"] by simp
  next
    case False
    with Cons.prems have f': "\<not> promptFull st'" by simp
    have "prompt_history_blocks (fill_loop rem bs (fill_step rem b st)) =
        prompt_history_blocks (fill_loop rem' bs (fill_step rem' b st'))"
      by (rule Cons.IH) (simp_all add: fill_step_prompt Cons.prems)
    with False f' show ?thesis by simp
  qed
qed

lemma filter_conversation_not_system:
  "filter is_conversation (filter (\<lambda>m. role m \<noteq> System) msgs) = filter is_conversation msgs"
  by (induction msgs) (auto simp: is_conversation_def)

lemma final_prompt_not_system:
  "final_prompt (filter (\<lambda>m. role m \<noteq> System) msgs) = final_prompt msgs"
proof -
  have "conversation_message_blocks (filter (\<lambda>m. role m \<noteq> System) msgs) =
      conversation_message_blocks msgs"
    by (simp only: conversation_message_blocks_eq filter_conversation_not_system)
  then have "prompt_history_blocks (fill (filter (\<lambda>m. role m \<noteq> System) msgs)) =
      prompt_history_blocks (fill msgs)"
    unfolding fill_def by (simp add: prompt_indep fill_init_def)
  then show ?thesis by (simp add: final_prompt_def)
qed

lemma fixed_closed_form:
  "fixed_system_prompt_content msgs =
     trim (take (nat SYSTEM_PROMPT_LIMIT)
       (concat (map system_text (filter (\<lambda>m. role m = System) msgs))))"
  using SYSTEM_PROMPT_LIMIT_nonneg
  by (auto simp: fixed_system_prompt_content_def Let_def fixed_acc_eq js_length_def)

lemma fill_decomp:
  "\<exists>older. conversation_message_blocks msgs =
     older @ system_prompt_history_blocks (fill msgs) @ prompt_history_blocks (fill msgs)"
  using fill_inv_fill [of msgs] by (auto simp: fill_inv_def)

lemma prompt_blocks_suffix:
  "\<exists>kept. suffix kept (filter is_conversation msgs) \<and>
     prompt_history_blocks (fill msgs) = map block_text kept"
proof -
  obtain older where "conversation_message_blocks msgs =
     (older @ system_prompt_history_blocks (fill msgs)) @ prompt_history_blocks (fill msgs)"
    using fill_decomp [of msgs] by auto
  then have "map block_text (filter is_conversation msgs) =
     (older @ system_prompt_history_blocks (fill msgs)) @ prompt_history_blocks (fill msgs)"
    by (simp only: conversation_message_blocks_eq)
  then obtain us vs where "filter is_conversation msgs = us @ vs"
    and "prompt_history_blocks (fill msgs) = map block_text vs"
    by (auto simp only: map_eq_append_conv)
  then show ?thesis by (auto simp: suffix_def)
qed

text \<open>
  Claim C8. The prompt is made of user and assistant messages only: it is the trimmed
  concatenation of the blocks of the last few of them, and it does not change when the
  system messages are removed from the input. The fixed system text is made of the system
  messages only: it is the trimmed concatenation of their texts, cut at the limit. For the
  messages system \<open>A\<close>, user \<open>B\<close>, assistant \<open>C\<close>, user \<open>D\<close> the system prompt
  is \<open>System: A\<close> and the prompt is the three blocks in order, trimmed.
\<close>

theorem role_partition:
  "prompt (convertMessagesToFalPrompt msgs) =
     prompt (convertMessagesToFalPrompt (filter (\<lambda>m. role m \<noteq> System) msgs)) \<and>
   (\<exists>kept. suffix kept (filter is_conversation msgs) \<and>
      prompt (convertMessagesToFalPrompt msgs) = trim (concat (map block_text kept))) \<and>
   fixed_system_prompt_content msgs =
     trim (take (nat SYSTEM_PROMPT_LIMIT)
       (concat (map system_text (filter (\<lambda>m. role m = System) msgs)))) \<and>
   convertMessagesToFalPrompt
     [msg System ''A'', msg User ''B'', msg Assistant ''C'', msg User ''D''] =
     \<lparr>system_prompt = ascii ''System: A'',
      prompt = ascii ''Human: B\<newline>\<newline>Assistant: C\<newline>\<newline>Human: D''\<rparr>"
proof (intro conjI)
  show "prompt (convertMessagesToFalPrompt msgs) =
     prompt (convertMessagesToFalPrompt (filter (\<lambda>m. role m \<noteq> System) msgs))"
    by (simp add: convertMessagesToFalPrompt_def final_prompt_not_system)
  show "\<exists>kept. suffix kept (filter is_conversation msgs) \<and>
      prompt (convertMessagesToFalPrompt msgs) = trim (concat (map block_text kept))"
    using prompt_blocks_suffix [of msgs]
    by (auto simp: convertMessagesToFalPrompt_def final_prompt_def)
  show "fixed_system_prompt_content msgs =
     trim (take (nat SYSTEM_PROMPT_LIMIT)
       (concat (map system_text (filter (\<lambda>m. role m = System) msgs))))"
    by (rule fixed_closed_form)
  show "convertMessagesToFalPrompt
     [msg System ''A'', msg User ''B'', msg Assistant ''C'', msg User ''D''] =
     \<lparr>system_prompt = ascii ''System: A'',
      prompt = ascii ''Human: B\<newline>\<newline>Assistant: C\<newline>\<newline>Human: D''\<rparr>"
    by code_simp
qed

theorem role_partition_witness:
  "prompt (convertMessagesToFalPrompt
     [msg System ''A'', msg User ''B'', msg Assistant ''C'', msg User ''D'']) =
     ascii ''Human: B\<newline>\<newline>Assistant: C\<newline>\<newline>Human: D'' \<and>
   system_prompt (convertMessagesToFalPrompt
     [msg System ''A'', msg User ''B'', msg Assistant ''C'', msg User ''D'']) =
     ascii ''System: A''"
  using role_partition [of "[]"] by simp

lemma long_user_role: "role (long_user n) = User"
  by (simp add: long_user_def)

lemma long_user_conversation: "is_conversation (long_user n)"
  by (simp add: is_conversation_def long_user_role)

lemma long_block_length: "js_length (block_text (long_user n)) = int n + 9"
  by (simp add: block_text_def long_user_def content_text_def js_length_def ascii_def LF2_def)

lemma no_system_remaining:
  "filter (\<lambda>m. role m = System) msgs = [] \<Longrightarrow> remaining_system_limit msgs = SYSTEM_PROMPT_LIMIT"
  using SYSTEM_PROMPT_LIMIT_nonneg
  by (simp add: remaining_system_limit_eq fixed_closed_form trim_Nil)

lemma long_blocks:
  "conversation_message_blocks (map long_user ns) = map (\<lambda>n. block_text (long_user n)) ns"
  by (induction ns) (simp_all add: conversation_message_blocks_eq long_user_conversation)

lemma long_remaining: "remaining_system_limit (map long_user ns) = SYSTEM_PROMPT_LIMIT"
  by (rule no_system_remaining) (induction ns, simp_all add: long_user_role)


lemma blocks4:
  "conversation_message_blocks [long_user 1791, long_user 1791, long_user 2991, long_user 2991] =
     [block_text (long_user 1791), block_text (long_user 1791),
      block_text (long_user 2991), block_text (long_user 2991)]"
  using long_blocks [of "[1791, 1791, 2991, 2991]"] by simp

lemma remaining4:
  "remaining_system_limit [long_user 1791, long_user 1791, long_user 2991, long_user 2991] =
     SYSTEM_PROMPT_LIMIT"
  using long_remaining [of "[1791, 1791, 2991, 2991]"] by simp

lemma fill4:
  "fill [long_user 1791, long_user 1791, long_user 2991, long_user 2991] =
     \<lparr>prompt_history_blocks = [block_text (long_user 2991)],
      system_prompt_history_blocks = [block_text (long_user 1791), block_text (long_user 2991)],
      current_prompt_length = 3000, current_system_history_length = 4800,
      promptFull = True, systemHistoryFull = True\<rparr>"
  unfolding fill_def blocks4 remaining4
  by (simp add: fill_init_def fill_step_def Let_def long_block_length PROMPT_LIMIT_def
      SYSTEM_PROMPT_LIMIT_def)

lemma blocks1: "conversation_message_blocks [long_user 4800] = [block_text (long_user 4800)]"
  using long_blocks [of "[4800]"] by simp

lemma remaining1: "remaining_system_limit [long_user 4800] = SYSTEM_PROMPT_LIMIT"
  using long_remaining [of "[4800]"] by simp

lemma fill1:
  "fill [long_user 4800] =
     \<lparr>prompt_history_blocks = [], system_prompt_history_blocks = [],
      current_prompt_length = 0, current_system_history_length = 0,
      promptFull = True, systemHistoryFull = True\<rparr>"
  unfolding fill_def blocks1 remaining1
  by (simp add: fill_init_def fill_step_def Let_def long_block_length PROMPT_LIMIT_def
      SYSTEM_PROMPT_LIMIT_def)

lemma block_text_head: "\<exists>c s. block_text m = c # s \<and> \<not> is_js_space c"
  by (simp add: block_text_def ascii_def is_js_space_def)

lemma trim_concat_blocks:
  assumes "bs \<noteq> []" and "set bs \<subseteq> range block_text"
  shows "trim (concat bs) \<noteq> []"
proof -
  from assms obtain m rest where "bs = block_text m # rest"
    by (cases bs) auto
  moreover obtain c s where "block_text m = c # s" and "\<not> is_js_space c"
    using block_text_head by blast
  ultimately show ?thesis by (simp add: trim_nonempty)
qed

lemma js_length_last_le: "xs \<noteq> [] \<Longrightarrow> js_length (last xs) \<le> js_length (concat xs)"
  by (induction xs) (auto simp: js_length_def)

lemma prompt_nonempty_blocks:
  "final_prompt msgs \<noteq> [] \<longleftrightarrow>
     conversation_message_blocks msgs \<noteq> [] \<and>
     js_length (last (conversation_message_blocks msgs)) \<le> PROMPT_LIMIT"
proof -
  let ?prm = "prompt_history_blocks (fill msgs)"
  let ?sys = "system_prompt_history_blocks (fill msgs)"
  let ?blocks = "conversation_message_blocks msgs"
  obtain older where inv: "fill_inv (remaining_system_limit msgs) ?blocks older (fill msgs)"
    using fill_inv_fill by blast
  then have dec: "?blocks = (older @ ?sys) @ ?prm"
    and le: "js_length (concat ?prm) \<le> PROMPT_LIMIT"
    and over: "older @ ?sys \<noteq> [] \<longrightarrow>
      PROMPT_LIMIT < js_length (last (older @ ?sys)) + js_length (concat ?prm)"
    by (simp_all add: fill_inv_def)
  show ?thesis
  proof
    assume "final_prompt msgs \<noteq> []"
    then have ne: "?prm \<noteq> []"
      by (auto simp: final_prompt_def trim_Nil)
    with dec have "last ?blocks = last ?prm" by (metis last_appendR)
    with ne le js_length_last_le [of ?prm] dec
    show "?blocks \<noteq> [] \<and> js_length (last ?blocks) \<le> PROMPT_LIMIT" by auto
  next
    assume a: "?blocks \<noteq> [] \<and> js_length (last ?blocks) \<le> PROMPT_LIMIT"
    have ne: "?prm \<noteq> []"
    proof
      assume e: "?prm = []"
      with dec a have "older @ ?sys \<noteq> []" and "last (older @ ?sys) = last ?blocks" by auto
      with over e a show False by (simp add: js_length_Nil)
    qed
    have "set ?prm \<subseteq> set ?blocks" by (subst dec) auto
    also have "\<dots> \<subseteq> range block_text" by (auto simp: conversation_message_blocks_eq)
    finally show "final_prompt msgs \<noteq> []"
      unfolding final_prompt_def using ne by (intro trim_concat_blocks)
  qed
qed

text \<open>
  Claim C4, as amended. The prompt is not empty exactly when the input has a user or
  assistant message and the block of the most recent one (its prefix, its content and the
  two line feeds) is at most \<open>PROMPT_LIMIT\<close> code units long.
\<close>

theorem prompt_nonempty_iff:
  "prompt (convertMessagesToFalPrompt msgs) \<noteq> [] \<longleftrightarrow>
     filter is_conversation msgs \<noteq> [] \<and>
     js_length (block_text (last (filter is_conversation msgs))) \<le> PROMPT_LIMIT"
  using prompt_nonempty_blocks [of msgs]
  by (auto simp: convertMessagesToFalPrompt_def conversation_message_blocks_eq last_map)

theorem prompt_nonempty_iff_witness:
  "filter is_conversation [msg System ''A'', msg User ''B''] \<noteq> [] \<and>
   js_length (block_text (last (filter is_conversation [msg System ''A'', msg User ''B''])))
     \<le> PROMPT_LIMIT \<and>
   prompt (convertMessagesToFalPrompt [msg System ''A'', msg User ''B'']) \<noteq> []"
proof -
  let ?ms = "[msg System ''A'', msg User ''B'']"
  have h: "filter is_conversation ?ms \<noteq> [] \<and>
      js_length (block_text (last (filter is_conversation ?ms))) \<le> PROMPT_LIMIT"
    by code_simp
  with prompt_nonempty_iff [of ?ms] show ?thesis by blast
qed

text \<open>
  A single user message of 4800 letters has a block of 4809 code units: it fits neither
  slot, and the prompt is empty although the input has a user message.
\<close>

theorem oversized_message_empty_prompt:
  "role (long_user 4800) = User \<and> 0 < PROMPT_LIMIT \<and>
   conversation_message_blocks [long_user 4800] = [block_text (long_user 4800)] \<and>
   js_length (block_text (long_user 4800)) = 4809 \<and>
   prompt (convertMessagesToFalPrompt [long_user 4800]) = []"
  by (simp add: fill1 blocks1 convertMessagesToFalPrompt_def final_prompt_def trim_Nil long_user_role
      long_block_length PROMPT_LIMIT_def)

text \<open>
  Claim C9. The conversation blocks are, in their original order, some omitted blocks,
  then the blocks of the system-slot history, then the blocks of the prompt: every block
  of the system slot is older than every block of the prompt, and both slots hold runs of
  consecutive blocks. Once the prompt slot is marked full, the loop never adds a block to
  it and it stays full.
\<close>

theorem slot_order:
  "(\<exists>older. conversation_message_blocks msgs =
      older @ system_prompt_history_blocks (fill msgs) @ prompt_history_blocks (fill msgs)) \<and>
   (promptFull st \<longrightarrow>
      prompt_history_blocks (fill_loop rem bs st) = prompt_history_blocks st \<and>
      promptFull (fill_loop rem bs st))"
  using fill_decomp [of msgs] prompt_stays [of st rem bs] by blast

theorem slot_order_witness:
  "conversation_message_blocks ([long_user 1791, long_user 1791, long_user 2991, long_user 2991]) =
     [block_text (long_user 1791)] @
     system_prompt_history_blocks (fill ([long_user 1791, long_user 1791, long_user 2991, long_user 2991])) @
     prompt_history_blocks (fill ([long_user 1791, long_user 1791, long_user 2991, long_user 2991])) \<and>
   system_prompt_history_blocks (fill ([long_user 1791, long_user 1791, long_user 2991, long_user 2991])) =
     [block_text (long_user 1791), block_text (long_user 2991)] \<and>
   prompt_history_blocks (fill ([long_user 1791, long_user 1791, long_user 2991, long_user 2991])) =
     [block_text (long_user 2991)] \<and>
   promptFull (fill ([long_user 1791, long_user 1791, long_user 2991, long_user 2991])) \<and>
   prompt_history_blocks (fill_loop 4800 [ascii ''Human: x'']
     (fill ([long_user 1791, long_user 1791, long_user 2991, long_user 2991]))) = [block_text (long_user 2991)]"
proof -
  let ?ms = "[long_user 1791, long_user 1791, long_user 2991, long_user 2991]"
  have p: "promptFull (fill ?ms)" by (simp add: fill4)
  from slot_order [of ?ms "fill ?ms" 4800 "[ascii ''Human: x'']"] p
  have "prompt_history_blocks (fill_loop 4800 [ascii ''Human: x''] (fill ?ms)) =
      prompt_history_blocks (fill ?ms)"
    by blast
  with p show ?thesis
    by (simp add: fill4 blocks4)
qed


lemma is_js_space_LF: "is_js_space 0x0A"
  by (simp add: is_js_space_def)

lemma trim_strip:
  "\<not> is_js_space c \<Longrightarrow> \<not> is_js_space d \<Longrightarrow> trim (c # s @ d # LF2) = c # s @ [d]"
  by (simp add: trim_def LF2_def is_js_space_LF)

lemma ascii_Human: "ascii ''Human: '' = 0x48 # ascii ''uman: ''"
  by (simp add: ascii_def)

lemma long_block_text:
  "block_text (long_user n) = ascii ''Human: '' @ replicate n 0x78 @ LF2"
  by (simp add: block_text_def long_user_def content_text_def)

lemma trim_long_blocks:
  "trim (bs @ block_text (long_user (Suc k))) = bs @ ascii ''Human: '' @ replicate (Suc k) 0x78"
  if "bs = [] \<or> \<not> is_js_space (hd bs)"
proof -
  have r: "replicate (Suc k) (0x78 :: 16 word) = replicate k 0x78 @ [0x78]"
    by (simp add: replicate_append_same)
  have x: "\<not> is_js_space 0x78" and h: "\<not> is_js_space 0x48"
    by (simp_all add: is_js_space_def)
  show ?thesis
  proof (cases bs)
    case Nil
    have "trim (0x48 # (ascii ''uman: '' @ replicate k 0x78) @ 0x78 # LF2) =
        0x48 # (ascii ''uman: '' @ replicate k 0x78) @ [0x78]"
      using h x by (rule trim_strip)
    with Nil show ?thesis
      unfolding long_block_text r ascii_Human by simp
  next
    case (Cons c cs)
    with that have c: "\<not> is_js_space c" by simp
    have "trim (c # (cs @ ascii ''Human: '' @ replicate k 0x78) @ 0x78 # LF2) =
        c # (cs @ ascii ''Human: '' @ replicate k 0x78) @ [0x78]"
      using c x by (rule trim_strip)
    with Cons show ?thesis
      unfolding long_block_text r by simp
  qed
qed

lemma fixed4:
  "fixed_system_prompt_content [long_user 1791, long_user 1791, long_user 2991, long_user 2991] = []"
  by (simp add: fixed_closed_form long_user_role trim_Nil)

lemma final_system_prompt_eq:
  "final_system_prompt msgs =
     (if fixed_system_prompt_content msgs = []
      then trim (concat (system_prompt_history_blocks (fill msgs)))
      else if trim (concat (system_prompt_history_blocks (fill msgs))) = []
      then fixed_system_prompt_content msgs
      else fixed_system_prompt_content msgs @ SEPARATOR @
        trim (concat (system_prompt_history_blocks (fill msgs))))"
  by (simp add: final_system_prompt_def Let_def system_prompt_history_content_def js_length_def)

text \<open>
  Claim C2, as amended. The composed output holds exactly the most recent \<open>K\<close> blocks,
  in their original order, and omits all older ones, where \<open>K\<close> is fixed by the two
  slots one after the other: the prompt holds the longest run of most recent blocks whose
  total length is within \<open>PROMPT_LIMIT\<close> (the block just before it would exceed the
  limit), and the system slot holds the longest run of the blocks just before those whose
  total length is within the remaining system limit (the block just before it would
  exceed that limit). The returned prompt is the trimmed concatenation of the blocks of
  the prompt slot. The returned system prompt is the trimmed concatenation of the blocks
  of the system slot, after the fixed system text and the separator when there is a fixed
  system text, and the fixed system text alone when the system slot is empty.
\<close>

theorem recency_fill:
  "\<exists>older.
     conversation_message_blocks msgs = older @ kept_blocks msgs \<and>
     kept_blocks msgs =
       most_recent (length (kept_blocks msgs)) (conversation_message_blocks msgs) \<and>
     js_length (concat (prompt_history_blocks (fill msgs))) \<le> PROMPT_LIMIT \<and>
     js_length (concat (system_prompt_history_blocks (fill msgs)))
       \<le> remaining_system_limit msgs \<and>
     (older @ system_prompt_history_blocks (fill msgs) \<noteq> [] \<longrightarrow>
        PROMPT_LIMIT < js_length (last (older @ system_prompt_history_blocks (fill msgs))) +
          js_length (concat (prompt_history_blocks (fill msgs)))) \<and>
     (older \<noteq> [] \<longrightarrow>
        remaining_system_limit msgs < js_length (last older) +
          js_length (concat (system_prompt_history_blocks (fill msgs)))) \<and>
     prompt (convertMessagesToFalPrompt msgs) =
       trim (concat (prompt_history_blocks (fill msgs))) \<and>
     system_prompt (convertMessagesToFalPrompt msgs) =
       (if fixed_system_prompt_content msgs = []
        then trim (concat (system_prompt_history_blocks (fill msgs)))
        else if trim (concat (system_prompt_history_blocks (fill msgs))) = []
        then fixed_system_prompt_content msgs
        else fixed_system_prompt_content msgs @ SEPARATOR @
          trim (concat (system_prompt_history_blocks (fill msgs))))"
proof -
  obtain older where inv:
    "fill_inv (remaining_system_limit msgs) (conversation_message_blocks msgs) older (fill msgs)"
    using fill_inv_fill by blast
  then have dec: "conversation_message_blocks msgs = older @ kept_blocks msgs"
    by (simp add: fill_inv_def kept_blocks_def)
  then have mr: "kept_blocks msgs =
      most_recent (length (kept_blocks msgs)) (conversation_message_blocks msgs)"
    by (simp add: most_recent_def)
  have sp: "system_prompt (convertMessagesToFalPrompt msgs) = final_system_prompt msgs"
    and pr: "prompt (convertMessagesToFalPrompt msgs) =
      trim (concat (prompt_history_blocks (fill msgs)))"
    by (simp_all add: convertMessagesToFalPrompt_def final_prompt_def)
  from inv dec mr show ?thesis
    unfolding sp pr final_system_prompt_eq [symmetric] fill_inv_def
    by (intro exI [of _ older]) simp
qed

theorem recency_fill_witness:
  "conversation_message_blocks [long_user 1791, long_user 1791, long_user 2991, long_user 2991] =
     [block_text (long_user 1791)] @
     kept_blocks [long_user 1791, long_user 1791, long_user 2991, long_user 2991] \<and>
   [block_text (long_user 1791)] \<noteq> [] \<and>
   PROMPT_LIMIT < js_length (block_text (long_user 2991)) +
     js_length (concat (prompt_history_blocks
       (fill [long_user 1791, long_user 1791, long_user 2991, long_user 2991]))) \<and>
   remaining_system_limit [long_user 1791, long_user 1791, long_user 2991, long_user 2991] <
     js_length (block_text (long_user 1791)) +
     js_length (concat (system_prompt_history_blocks
       (fill [long_user 1791, long_user 1791, long_user 2991, long_user 2991]))) \<and>
   prompt (convertMessagesToFalPrompt
       [long_user 1791, long_user 1791, long_user 2991, long_user 2991]) =
     ascii ''Human: '' @ replicate 2991 0x78 \<and>
   system_prompt (convertMessagesToFalPrompt
       [long_user 1791, long_user 1791, long_user 2991, long_user 2991]) =
     ascii ''Human: '' @ replicate 1791 0x78 @ LF2 @ ascii ''Human: '' @ replicate 2991 0x78"
proof -
  let ?ms = "[long_user 1791, long_user 1791, long_user 2991, long_user 2991]"
  let ?sys = "system_prompt_history_blocks (fill ?ms)"
  let ?prm = "prompt_history_blocks (fill ?ms)"
  from recency_fill [of ?ms] obtain older where
    dec: "conversation_message_blocks ?ms = older @ kept_blocks ?ms"
    and p: "older @ ?sys \<noteq> [] \<longrightarrow>
      PROMPT_LIMIT < js_length (last (older @ ?sys)) + js_length (concat ?prm)"
    and q: "older \<noteq> [] \<longrightarrow>
      remaining_system_limit ?ms < js_length (last older) + js_length (concat ?sys)"
    and pr: "prompt (convertMessagesToFalPrompt ?ms) = trim (concat ?prm)"
    and sp: "system_prompt (convertMessagesToFalPrompt ?ms) =
      (if fixed_system_prompt_content ?ms = [] then trim (concat ?sys)
       else if trim (concat ?sys) = [] then fixed_system_prompt_content ?ms
       else fixed_system_prompt_content ?ms @ SEPARATOR @ trim (concat ?sys))"
    by blast
  have k: "kept_blocks ?ms =
      [block_text (long_user 1791), block_text (long_user 2991), block_text (long_user 2991)]"
    by (simp add: kept_blocks_def fill4)
  from dec have o: "older = [block_text (long_user 1791)]"
    unfolding k blocks4 by simp
  have s: "?sys = [block_text (long_user 1791), block_text (long_user 2991)]"
    and m: "?prm = [block_text (long_user 2991)]"
    by (simp_all add: fill4)
  have "trim (concat [block_text (long_user 2991)]) = ascii ''Human: '' @ replicate 2991 0x78"
    using trim_long_blocks [of "[]" 2990] by simp
  then have t1: "trim (concat ?prm) = ascii ''Human: '' @ replicate 2991 0x78"
    by (simp only: m)
  have "block_text (long_user 1791) = [] \<or> \<not> is_js_space (hd (block_text (long_user 1791)))"
    by (simp add: long_block_text ascii_Human is_js_space_def)
  then have "trim (block_text (long_user 1791) @ block_text (long_user (Suc 2990))) =
      block_text (long_user 1791) @ ascii ''Human: '' @ replicate (Suc 2990) 0x78"
    by (rule trim_long_blocks)
  then have "trim (concat [block_text (long_user 1791), block_text (long_user 2991)]) =
      ascii ''Human: '' @ replicate 1791 0x78 @ LF2 @ ascii ''Human: '' @ replicate 2991 0x78"
    by (simp add: long_block_text)
  then have t2: "trim (concat ?sys) =
      ascii ''Human: '' @ replicate 1791 0x78 @ LF2 @ ascii ''Human: '' @ replicate 2991 0x78"
    by (simp only: s)
  from sp have sp': "system_prompt (convertMessagesToFalPrompt ?ms) = trim (concat ?sys)"
    by (simp only: fixed4 refl if_True)
  from p q dec have "conversation_message_blocks ?ms = [block_text (long_user 1791)] @ kept_blocks ?ms \<and>
   [block_text (long_user 1791)] \<noteq> [] \<and>
   PROMPT_LIMIT < js_length (block_text (long_user 2991)) + js_length (concat ?prm) \<and>
   remaining_system_limit ?ms < js_length (block_text (long_user 1791)) + js_length (concat ?sys)"
    unfolding o s by simp
  moreover from pr t1 have "prompt (convertMessagesToFalPrompt ?ms) =
      ascii ''Human: '' @ replicate 2991 0x78" by (rule trans)
  moreover from sp' t2 have "system_prompt (convertMessagesToFalPrompt ?ms) =
      ascii ''Human: '' @ replicate 1791 0x78 @ LF2 @ ascii ''Human: '' @ replicate 2991 0x78"
    by (rule trans)
  ultimately show ?thesis by blast
qed

text \<open>
  Four user messages whose blocks are 1800, 1800, 3000 and 3000 code units long: together
  they are 9600 long, which is the sum of the two limits, and they can be placed whole in
  the two slots (the first with the last in the prompt, the two in the middle in the
  system slot). The composed output holds the three most recent ones only.
\<close>

theorem combined_budget_counterexample:
  "length (conversation_message_blocks
     [long_user 1791, long_user 1791, long_user 2991, long_user 2991]) = 4 \<and>
   fits_combined [long_user 1791, long_user 1791, long_user 2991, long_user 2991] 4 \<and>
   js_length (block_text (long_user 1791) @ block_text (long_user 2991)) \<le> PROMPT_LIMIT \<and>
   js_length (block_text (long_user 1791) @ block_text (long_user 2991))
     \<le> remaining_system_limit [long_user 1791, long_user 1791, long_user 2991, long_user 2991] \<and>
   kept_blocks [long_user 1791, long_user 1791, long_user 2991, long_user 2991] =
     most_recent 3 (conversation_message_blocks
       [long_user 1791, long_user 1791, long_user 2991, long_user 2991]) \<and>
   kept_blocks [long_user 1791, long_user 1791, long_user 2991, long_user 2991] \<noteq>
     most_recent 4 (conversation_message_blocks
       [long_user 1791, long_user 1791, long_user 2991, long_user 2991])"
  by (simp add: blocks4 remaining4 fits_combined_def most_recent_def kept_blocks_def fill4
      js_length_append long_block_length PROMPT_LIMIT_def SYSTEM_PROMPT_LIMIT_def js_length_Nil)

end
